theory Spec2Isabelle
  imports Main "HOL-Library.Sublist"
begin

section \<open>Errors\<close>

text \<open>
  A failed \<^verbatim>\<open>OPENVINO_ASSERT\<close> throws; the exception carries the message of the assertion.
  The graph rewrite has two more ways to fail: reading through a null pointer, and asking
  a node for an input it does not have.
\<close>

datatype error =
    AssertFailure string
  | NullPointerDereference
  | InputIndexOutOfRange

section \<open>Executor factory (executor\_factory.hpp)\<close>

subsection \<open>Data\<close>

text \<open>
  The descriptor set, the attributes, the memory format filter, the memory arguments, the
  execution context and the executor an implementation creates are declared outside
  executor\_factory.hpp; the factory only passes them on, so they are the type parameters
  \<open>'d\<close>, \<open>'a\<close>, \<open>'f\<close>, \<open>'m\<close>, \<open>'c\<close> and \<open>'x\<close>.
\<close>

text \<open>
  Modelled from the spec: \<^verbatim>\<open>executor::Config<Attrs>\<close>, declared in executor\_config.hpp, which
  is not under src/: a snapshot pairing memory descriptors with an attribute instance. The
  factory builds it as \<^verbatim>\<open>Config{descriptors, m_attrs}\<close> and reads its member \<^verbatim>\<open>descs\<close>.
\<close>

record ('a, 'd) Config =
  descs :: 'd
  attrs :: 'a

text \<open>
  Modelled from the spec: \<^verbatim>\<open>ExecutorImplementation<Attrs>\<close>, declared in
  executor\_implementation.hpp, which is not under src/: name, support predicate on config
  and layout filter, fallback predicate giving an optional fallback config, shape-agnostic
  flag, and the factory from attributes, memory arguments and context to an executor. These
  are the five member functions the factory calls.
\<close>

record ('a, 'd, 'f, 'm, 'c, 'x) ExecutorImplementation =
  name :: string
  supports :: "('a, 'd) Config \<Rightarrow> 'f \<Rightarrow> bool"
  requiresFallback :: "('a, 'd) Config \<Rightarrow> ('a, 'd) Config option"
  shapeAgnostic :: bool
  create :: "'a \<Rightarrow> 'm \<Rightarrow> 'c \<Rightarrow> 'x"

text \<open>
  \<^verbatim>\<open>ExecutorImplementationRef\<close> is a \<^verbatim>\<open>std::reference_wrapper\<close> to an element of the vector
  that \<^verbatim>\<open>getImplementations<Attrs>()\<close> returns: the position of that element in the vector.
  \<open>get impls r\<close> is \<^verbatim>\<open>r.get()\<close>.
\<close>

type_synonym ExecutorImplementationRef = nat

definition get ::
  "('a, 'd, 'f, 'm, 'c, 'x) ExecutorImplementation list \<Rightarrow> ExecutorImplementationRef
   \<Rightarrow> ('a, 'd, 'f, 'm, 'c, 'x) ExecutorImplementation" where
  "get impls r = impls ! r"

text \<open>
  Modelled from the spec: the executor that \<^verbatim>\<open>make\<close> returns, one of Simple, Fallback and
  Variable; the executor classes are not under src/. \<open>Simple\<close> holds what
  \<^verbatim>\<open>ExecutorImplementation::create\<close> returned; \<open>Fallback\<close> stands for the result of
  \<^verbatim>\<open>GraphEmitter<Attrs>::fallback\<close> and keeps the five arguments of that call; \<open>Variable\<close> is
  the \<^verbatim>\<open>VariableExecutor<Attrs>\<close> with its four constructor arguments.
\<close>

datatype ('a, 'd, 'm, 'c, 'x) Executor =
    is_Simple: Simple 'x
  | is_Fallback: Fallback "('a, 'd) Config" "('a, 'd) Config" 'm 'c string
  | is_Variable: Variable 'm 'a 'c "ExecutorImplementationRef list"

record ('a, 'c) ExecutorFactory =
  m_attrs :: 'a
  m_context :: 'c
  m_suitableImplementations :: "ExecutorImplementationRef list"

subsection \<open>filter\<close>

text \<open>
  The loop of \<^verbatim>\<open>filter\<close> over the implementations still to be visited, each with its position;
  \<open>suitable\<close> is \<^verbatim>\<open>suitableImplementations\<close>. The two \<^verbatim>\<open>continue\<close>s go on with the rest,
  \<^verbatim>\<open>break\<close> returns what has been collected.
\<close>

fun filter_loop ::
  "('a, 'd) Config \<Rightarrow> 'f \<Rightarrow> string
   \<Rightarrow> (nat \<times> ('a, 'd, 'f, 'm, 'c, 'x) ExecutorImplementation) list
   \<Rightarrow> ExecutorImplementationRef list \<Rightarrow> ExecutorImplementationRef list" where
  "filter_loop config memoryFormatFilter implementationPriority [] suitable = suitable"
| "filter_loop config memoryFormatFilter implementationPriority ((i, implementation) # rest) suitable =
     (if implementationPriority \<noteq> [] \<and> name implementation \<noteq> implementationPriority
      then filter_loop config memoryFormatFilter implementationPriority rest suitable
      else if \<not> supports implementation config memoryFormatFilter
      then filter_loop config memoryFormatFilter implementationPriority rest suitable
      else if shapeAgnostic implementation
      then suitable @ [i]
      else filter_loop config memoryFormatFilter implementationPriority rest (suitable @ [i]))"

text \<open>
  \<^verbatim>\<open>ExecutorFactory::filter\<close>. The first argument is the registry
  \<^verbatim>\<open>getImplementations<Attrs>()\<close>. An empty \<open>implementationPriority\<close> is the default
  argument: no override.
\<close>

definition filter_impls ::
  "('a, 'd, 'f, 'm, 'c, 'x) ExecutorImplementation list \<Rightarrow> 'a \<Rightarrow> 'd \<Rightarrow> 'f \<Rightarrow> string
   \<Rightarrow> ExecutorImplementationRef list" where
  "filter_impls implementations attrs' descs' memoryFormatFilter implementationPriority =
     filter_loop \<lparr>descs = descs', attrs = attrs'\<rparr> memoryFormatFilter implementationPriority
       (enumerate 0 implementations) []"

subsection \<open>Constructor\<close>

definition ExecutorFactory_new ::
  "('a, 'd, 'f, 'm, 'c, 'x) ExecutorImplementation list \<Rightarrow> 'a \<Rightarrow> 'c \<Rightarrow> 'd \<Rightarrow> 'f \<Rightarrow> string
   \<Rightarrow> error + ('a, 'c) ExecutorFactory" where
  "ExecutorFactory_new implementations attrs' context descriptors memoryFormatFilter
       implementationPriority =
     (let suitable = filter_impls implementations attrs' descriptors memoryFormatFilter
                       implementationPriority
      in if suitable = [] then Inl (AssertFailure ''No suitable implementations found'')
         else Inr \<lparr>m_attrs = attrs', m_context = context, m_suitableImplementations = suitable\<rparr>)"

subsection \<open>Member functions\<close>

text \<open>
  A member function returns its result together with the factory as the call leaves it.
\<close>

text \<open>
  The lambda \<^verbatim>\<open>getProperMemoryDescArgs\<close> of \<^verbatim>\<open>getProperMemoryDescriptors\<close>.
\<close>

definition getProperMemoryDescArgs ::
  "('a, 'd, 'f, 'm, 'c, 'x) ExecutorImplementation \<Rightarrow> ('a, 'd) Config \<Rightarrow> 'd" where
  "getProperMemoryDescArgs impl config =
     (case requiresFallback impl config of
        Some fallbackConfig \<Rightarrow> descs fallbackConfig
      | None \<Rightarrow> descs config)"

text \<open>The loop of \<^verbatim>\<open>getProperMemoryDescriptors\<close>; \<open>memoryDescArgs\<close> is the vector it fills.\<close>

fun getProper_loop ::
  "('a, 'd, 'f, 'm, 'c, 'x) ExecutorImplementation list \<Rightarrow> ('a, 'd) Config
   \<Rightarrow> ExecutorImplementationRef list \<Rightarrow> 'd list \<Rightarrow> 'd list" where
  "getProper_loop implementations config [] memoryDescArgs = memoryDescArgs"
| "getProper_loop implementations config (impl # rest) memoryDescArgs =
     getProper_loop implementations config rest
       (memoryDescArgs @ [getProperMemoryDescArgs (get implementations impl) config])"

definition getProperMemoryDescriptors ::
  "('a, 'd, 'f, 'm, 'c, 'x) ExecutorImplementation list \<Rightarrow> ('a, 'c) ExecutorFactory \<Rightarrow> 'd
   \<Rightarrow> 'd list \<times> ('a, 'c) ExecutorFactory" where
  "getProperMemoryDescriptors implementations this descriptors =
     (let config = \<lparr>descs = descriptors, attrs = m_attrs this\<rparr>
      in (getProper_loop implementations config (m_suitableImplementations this) [], this))"

text \<open>
  \<^verbatim>\<open>ExecutorFactory::make\<close>. \<open>createConfig\<close> is \<^verbatim>\<open>GraphEmitter<Attrs>::createConfig\<close>, declared
  in graph\_emitter.hpp: it derives the Config from the realized memory arguments and the
  attributes. \<^verbatim>\<open>front()\<close> is read only where the size is 1.
\<close>

definition ExecutorFactory_make ::
  "('a, 'd, 'f, 'm, 'c, 'x) ExecutorImplementation list \<Rightarrow> ('m \<Rightarrow> 'a \<Rightarrow> ('a, 'd) Config)
   \<Rightarrow> ('a, 'c) ExecutorFactory \<Rightarrow> 'm
   \<Rightarrow> ('a, 'd, 'm, 'c, 'x) Executor \<times> ('a, 'c) ExecutorFactory" where
  "ExecutorFactory_make implementations createConfig this memory =
     (if length (m_suitableImplementations this) = 1
      then (let config = createConfig memory (m_attrs this);
                theOnlyImplementation = get implementations (hd (m_suitableImplementations this))
            in case requiresFallback theOnlyImplementation config of
                 Some fallbackConfig \<Rightarrow>
                   (Fallback config fallbackConfig memory (m_context this)
                      (name theOnlyImplementation), this)
               | None \<Rightarrow>
                   (Simple (create theOnlyImplementation (m_attrs this) memory (m_context this)),
                    this))
      else (Variable memory (m_attrs this) (m_context this) (m_suitableImplementations this),
            this))"

text \<open>
  The life of a factory after its construction is a sequence of calls of its two public
  member functions.
\<close>

datatype ('d, 'm) call = CallGetProperMemoryDescriptors 'd | CallMake 'm

fun after_call ::
  "('a, 'd, 'f, 'm, 'c, 'x) ExecutorImplementation list \<Rightarrow> ('m \<Rightarrow> 'a \<Rightarrow> ('a, 'd) Config)
   \<Rightarrow> ('a, 'c) ExecutorFactory \<Rightarrow> ('d, 'm) call \<Rightarrow> ('a, 'c) ExecutorFactory" where
  "after_call implementations createConfig this (CallGetProperMemoryDescriptors descriptors) =
     snd (getProperMemoryDescriptors implementations this descriptors)"
| "after_call implementations createConfig this (CallMake memory) =
     snd (ExecutorFactory_make implementations createConfig this memory)"

definition after_calls ::
  "('a, 'd, 'f, 'm, 'c, 'x) ExecutorImplementation list \<Rightarrow> ('m \<Rightarrow> 'a \<Rightarrow> ('a, 'd) Config)
   \<Rightarrow> ('a, 'c) ExecutorFactory \<Rightarrow> ('d, 'm) call list \<Rightarrow> ('a, 'c) ExecutorFactory" where
  "after_calls implementations createConfig this calls =
     foldl (after_call implementations createConfig) this calls"

section \<open>TopK downgrade (convert\_topk11\_downgrade.cpp)\<close>

subsection \<open>Graph\<close>

text \<open>
  Modelled from the spec: the attribute bag of a TopK node; the operation classes
  \<^verbatim>\<open>opset3::TopK\<close> and \<^verbatim>\<open>opset11::TopK\<close> are not under src/. The callback reads axis, mode,
  sort type and index element type, which the constructor of version 3 takes, and the
  \<open>stable\<close> flag, which only version 11 has. \<^verbatim>\<open>element::Type\<close> is kept by the number of its
  enumerator.
\<close>

datatype TopKMode = TopKMode_MAX | TopKMode_MIN

datatype TopKSortType = TopKSortType_NONE | SORT_INDICES | SORT_VALUES

type_synonym element_type = nat

record TopKBase =
  axis :: int
  mode :: TopKMode
  sort_type :: TopKSortType
  index_element_type :: element_type

record v11_TopK = TopKBase +
  stable :: bool

text \<open>
  Modelled from the spec: the kind and version of a node, with the attributes where the
  rewrite reads them.
\<close>

datatype Op =
    opset11_TopK v11_TopK
  | opset3_TopK TopKBase
  | OtherOp string

text \<open>
  Modelled from the spec: \<^verbatim>\<open>Output<Node>\<close>, a value reference: an output port of a node, which
  a consumer's input refers to.
\<close>

record Output =
  out_node :: nat
  out_index :: nat

text \<open>
  Modelled from the spec: a node, with its operation, its ordered input value references, its
  name and its provenance metadata (the runtime info, an opaque key-value map).
\<close>

record Node =
  operation :: Op
  inputs :: "Output list"
  friendly_name :: string
  rt_info :: "(string \<times> string) list"

text \<open>
  Modelled from the spec: the graph, which no file under src/ declares. It is an arena of
  nodes addressed by stable handles: the handle of a node is its position, a removed node
  leaves an empty slot, and a new node takes the next position. The edges are the
  \<open>inputs\<close> of the consumers.
\<close>

type_synonym Graph = "Node option list"

text \<open>Modelled from the spec: the node behind a handle, if there is one.\<close>

definition get_node :: "Graph \<Rightarrow> nat \<Rightarrow> Node option" where
  "get_node g h = (if h < length g then g ! h else None)"

text \<open>A \<^verbatim>\<open>std::shared_ptr\<close> to a node: null or a handle.\<close>

type_synonym NodePtr = "nat option"

subsection \<open>What the callback calls\<close>

text \<open>
  \<^verbatim>\<open>std::dynamic_pointer_cast<opset11::TopK>\<close>: the same pointer when it points to a TopK of
  version 11, null otherwise.
\<close>

definition dynamic_pointer_cast_TopK_v11 :: "Graph \<Rightarrow> NodePtr \<Rightarrow> NodePtr" where
  "dynamic_pointer_cast_TopK_v11 g p =
     (case p of
        None \<Rightarrow> None
      | Some h \<Rightarrow>
          (case get_node g h of
             None \<Rightarrow> None
           | Some n \<Rightarrow> (case operation n of opset11_TopK a \<Rightarrow> Some h | _ \<Rightarrow> None)))"

text \<open>
  \<^verbatim>\<open>operator->\<close> on a \<^verbatim>\<open>std::shared_ptr<opset11::TopK>\<close>: the handle, the node and its
  version 11 attributes. Reading through a null pointer is the error; a handle with no
  TopK of version 11 behind it is no value of such a pointer and is reported in the same way.
\<close>

definition deref_TopK_v11 :: "Graph \<Rightarrow> NodePtr \<Rightarrow> error + (nat \<times> Node \<times> v11_TopK)" where
  "deref_TopK_v11 g p =
     (case p of
        None \<Rightarrow> Inl NullPointerDereference
      | Some h \<Rightarrow>
          (case get_node g h of
             None \<Rightarrow> Inl NullPointerDereference
           | Some n \<Rightarrow>
               (case operation n of
                  opset11_TopK a \<Rightarrow> Inr (h, n, a)
                | _ \<Rightarrow> Inl NullPointerDereference)))"

text \<open>
  Modelled from the spec: \<^verbatim>\<open>Node::input_value(i)\<close>, the i-th of the node's ordered input value
  references; the node class is not under src/. An index past the inputs is an error.
\<close>

definition input_value :: "Node \<Rightarrow> nat \<Rightarrow> error + Output" where
  "input_value n i = (if i < length (inputs n) then Inr (inputs n ! i) else Inl InputIndexOutOfRange)"

text \<open>
  Modelled from the spec:
  \<^verbatim>\<open>std::make_shared<opset3::TopK>(data, k, axis, mode, sort, index_element_type)\<close>, a new node
  of the target kind and version with these input bindings and attributes. It is not yet
  linked into the graph and has no name and no runtime info of its own.
\<close>

definition make_shared_TopK_v3 ::
  "Output \<Rightarrow> Output \<Rightarrow> int \<Rightarrow> TopKMode \<Rightarrow> TopKSortType \<Rightarrow> element_type \<Rightarrow> Node" where
  "make_shared_TopK_v3 data k axis' mode' sort' index_element_type' =
     \<lparr>operation = opset3_TopK \<lparr>axis = axis', mode = mode', sort_type = sort',
                                 index_element_type = index_element_type'\<rparr>,
      inputs = [data, k], friendly_name = [], rt_info = []\<rparr>"

text \<open>Modelled from the spec: the accessors of the node's name.\<close>

definition set_friendly_name :: "Node \<Rightarrow> string \<Rightarrow> Node" where
  "set_friendly_name n s = n\<lparr>friendly_name := s\<rparr>"

definition get_friendly_name :: "Node \<Rightarrow> string" where
  "get_friendly_name n = friendly_name n"

text \<open>
  Modelled from the spec: \<^verbatim>\<open>copy_runtime_info(from, to)\<close>, declared in the runtime-info
  utilities and not under src/: the original's provenance metadata are copied onto the
  replacement.
\<close>

definition copy_runtime_info :: "Node \<Rightarrow> Node \<Rightarrow> Node" where
  "copy_runtime_info from to = to\<lparr>rt_info := rt_info from\<rparr>"

text \<open>
  Modelled from the spec: rewiring one edge: a reference to an output of the target becomes
  the reference to the output of the replacement with the same index.
\<close>

definition rewire :: "nat \<Rightarrow> nat \<Rightarrow> Output \<Rightarrow> Output" where
  "rewire target replacement out =
     (if out_node out = target then out\<lparr>out_node := replacement\<rparr> else out)"

text \<open>
  Modelled from the spec: \<^verbatim>\<open>replace_node(target, replacement)\<close>, declared in the graph utilities
  and not under src/. The replacement is linked into the graph under the next handle; every
  edge that referenced an output of the target references the corresponding output of the
  replacement; the target is removed.
\<close>

definition replace_node :: "Graph \<Rightarrow> nat \<Rightarrow> Node \<Rightarrow> Graph" where
  "replace_node g target replacement =
     (let r = length g;
          linked = g @ [Some replacement];
          rewired = map (map_option (\<lambda>n. n\<lparr>inputs := map (rewire target r) (inputs n)\<rparr>)) linked
      in rewired[target := None])"

subsection \<open>The callback and the matcher\<close>

text \<open>
  The \<^verbatim>\<open>matcher_pass_callback\<close> of \<^verbatim>\<open>ConvertTopK11ToTopK3\<close>. \<open>match_root\<close> is
  \<^verbatim>\<open>m.get_match_root()\<close>; \<open>transformation_callback\<close> is the veto of the compile session, which
  receives the node pointer and so can read the node and the graph around it. The result is
  the returned flag and the graph as the call leaves it.
\<close>

definition callback ::
  "(Graph \<Rightarrow> nat \<Rightarrow> bool) \<Rightarrow> Graph \<Rightarrow> NodePtr \<Rightarrow> error + (bool \<times> Graph)" where
  "callback transformation_callback g match_root =
     (let topk_v11 = dynamic_pointer_cast_TopK_v11 g match_root
      in if topk_v11 = None then Inr (False, g)
         else case deref_TopK_v11 g topk_v11 of
                Inl e \<Rightarrow> Inl e
              | Inr (h, n, a) \<Rightarrow>
                  if stable a then Inr (False, g)
                  else if transformation_callback g h then Inr (False, g)
                  else case input_value n 0 of
                         Inl e \<Rightarrow> Inl e
                       | Inr data \<Rightarrow>
                           (case input_value n 1 of
                              Inl e \<Rightarrow> Inl e
                            | Inr k \<Rightarrow>
                                (let topk_v3 = make_shared_TopK_v3 data k (axis a) (mode a)
                                                 (sort_type a) (index_element_type a);
                                     topk_v3 = set_friendly_name topk_v3 (get_friendly_name n);
                                     topk_v3 = copy_runtime_info n topk_v3
                                 in Inr (True, replace_node g h topk_v3))))"

text \<open>
  Modelled from the spec: the matcher registered for the pattern
  \<^verbatim>\<open>wrap_type<opset11::TopK>()\<close>, whose class is not under src/. \<open>apply_node\<close> is the
  spec's \<^verbatim>\<open>apply(node) -> changed\<close>: a node that does not match the (kind, version) pattern
  gives \<open>False\<close> with no mutation, a node that matches is handed to the callback as the
  match root.
\<close>

definition apply_node ::
  "(Graph \<Rightarrow> nat \<Rightarrow> bool) \<Rightarrow> Graph \<Rightarrow> nat \<Rightarrow> error + (bool \<times> Graph)" where
  "apply_node transformation_callback g h =
     (case get_node g h of
        None \<Rightarrow> Inr (False, g)
      | Some n \<Rightarrow>
          (case operation n of
             opset11_TopK a \<Rightarrow> callback transformation_callback g (Some h)
           | _ \<Rightarrow> Inr (False, g)))"


text \<open>
  Modelled from the spec: why the driver stopped: no pass reported true in a full sweep, or
  the bounded iteration ceiling was hit.
\<close>

datatype stop = NoChange | CeilingHit






section \<open>Example inputs\<close>

text \<open>
  Three implementations over descriptors that are a format number (1 or 2): A supports
  format 1 only, B supports both formats, is shape agnostic and asks for a fallback to
  format 1 when it is given format 2, C supports format 2 only.
\<close>

definition implA :: "(nat, nat, unit, nat, unit, string) ExecutorImplementation" where
  "implA = \<lparr>name = ''A'', supports = (\<lambda>config _. descs config = 1),
             requiresFallback = (\<lambda>_. None), shapeAgnostic = False,
             create = (\<lambda>_ _ _. ''executor of A'')\<rparr>"

definition implB :: "(nat, nat, unit, nat, unit, string) ExecutorImplementation" where
  "implB = \<lparr>name = ''B'', supports = (\<lambda>config _. descs config = 1 \<or> descs config = 2),
             requiresFallback =
               (\<lambda>config. if descs config = 2 then Some (config\<lparr>descs := 1\<rparr>) else None),
             shapeAgnostic = True,
             create = (\<lambda>_ _ _. ''executor of B'')\<rparr>"

definition implC :: "(nat, nat, unit, nat, unit, string) ExecutorImplementation" where
  "implC = \<lparr>name = ''C'', supports = (\<lambda>config _. descs config = 2),
             requiresFallback = (\<lambda>_. None), shapeAgnostic = False,
             create = (\<lambda>_ _ _. ''executor of C'')\<rparr>"

definition createConfig_example :: "nat \<Rightarrow> nat \<Rightarrow> (nat, nat) Config" where
  "createConfig_example memory attrs' = \<lparr>descs = memory, attrs = attrs'\<rparr>"

text \<open>
  A graph with a parameter, a constant and two TopK-v11 nodes in a chain, the second read by
  a result; and a graph whose only TopK-v11 node requires a stable sort.
\<close>

definition example_TopK_v11 :: "bool \<Rightarrow> nat \<Rightarrow> string \<Rightarrow> Node" where
  "example_TopK_v11 stable' source name' =
     \<lparr>operation = opset11_TopK \<lparr>axis = 1, mode = TopKMode_MAX, sort_type = SORT_VALUES,
                                  index_element_type = 0, stable = stable'\<rparr>,
      inputs = [\<lparr>out_node = source, out_index = 0\<rparr>, \<lparr>out_node = 1, out_index = 0\<rparr>],
      friendly_name = name', rt_info = [(''origin'', name')]\<rparr>"

definition example_other :: "string \<Rightarrow> Output list \<Rightarrow> Node" where
  "example_other kind ins =
     \<lparr>operation = OtherOp kind, inputs = ins, friendly_name = kind, rt_info = []\<rparr>"

definition graph_example :: Graph where
  "graph_example =
     [Some (example_other ''Parameter'' []),
      Some (example_other ''Constant'' []),
      Some (example_TopK_v11 False 0 ''topk_a''),
      Some (example_TopK_v11 False 2 ''topk_b''),
      Some (example_other ''Result'' [\<lparr>out_node = 3, out_index = 1\<rparr>])]"

definition graph_stable_example :: Graph where
  "graph_stable_example =
     [Some (example_other ''Parameter'' []),
      Some (example_other ''Constant'' []),
      Some (example_TopK_v11 True 0 ''topk_s'')]"


definition veto_by_name :: "Graph \<Rightarrow> nat \<Rightarrow> bool" where
  "veto_by_name g h =
     (case get_node g h of None \<Rightarrow> False | Some n \<Rightarrow> friendly_name n = ''topk_a'')"

section \<open>Properties of the executor factory\<close>

subsection \<open>The candidate list\<close>

lemma filter_loop_acc:
  "filter_loop c m p xs acc = acc @ filter_loop c m p xs []"
proof (induction xs arbitrary: acc)
  case Nil
  show ?case by simp
next
  case (Cons x xs)
  obtain i impl where x: "x = (i, impl)" by (cases x)
  show ?case
    using Cons.IH [of "acc @ [i]"] Cons.IH [of "[i]"] Cons.IH [of acc]
    by (auto simp: x)
qed

lemma filter_loop_subseq:
  "subseq (filter_loop c m p xs []) (map fst xs)"
proof (induction xs)
  case Nil
  show ?case by simp
next
  case (Cons x xs)
  obtain i impl where x: "x = (i, impl)" by (cases x)
  have step: "subseq (i # filter_loop c m p xs []) (i # map fst xs)"
    using Cons.IH by simp
  show ?case
    using Cons.IH step filter_loop_acc [of c m p xs "[i]"]
    by (auto simp: x)
qed

lemma filter_impls_subseq_upt:
  "subseq (filter_impls impls a d m p) [0..<length impls]"
  using filter_loop_subseq [of "\<lparr>descs = d, attrs = a\<rparr>" m p "enumerate 0 impls"]
  by (simp add: filter_impls_def)

lemma subseq_in_set: "subseq xs ys \<Longrightarrow> x \<in> set xs \<Longrightarrow> x \<in> set ys"
  by (induction rule: list_emb.induct) auto

lemma subseq_sorted_wrt: "subseq xs ys \<Longrightarrow> sorted_wrt P ys \<Longrightarrow> sorted_wrt P xs"
  by (induction rule: list_emb.induct) (auto dest: subseq_in_set)

lemma subseq_distinct: "subseq xs ys \<Longrightarrow> distinct ys \<Longrightarrow> distinct xs"
  by (induction rule: list_emb.induct) (auto dest: subseq_in_set)

lemma filter_impls_in_range:
  "r \<in> set (filter_impls impls a d m p) \<Longrightarrow> r < length impls"
  using subseq_in_set [OF filter_impls_subseq_upt, of r impls a d m p] by simp

lemma filter_impls_sorted: "sorted_wrt (<) (filter_impls impls a d m p)"
  using subseq_sorted_wrt [OF filter_impls_subseq_upt, of "(<)" impls a d m p] by simp

lemma filter_impls_distinct: "distinct (filter_impls impls a d m p)"
  using subseq_distinct [OF filter_impls_subseq_upt, of impls a d m p] by simp

lemma filter_impls_get_subseq:
  "subseq (map (get impls) (filter_impls impls a d m p)) impls"
proof -
  have "subseq (map ((!) impls) (filter_impls impls a d m p)) (map ((!) impls) [0..<length impls])"
    using filter_impls_subseq_upt by (rule subseq_map)
  moreover have "get impls = (!) impls" by (rule ext) (simp add: get_def)
  ultimately show ?thesis by (simp add: map_nth)
qed

text \<open>
  Claim C4. For every registry, attributes, descriptors, layout filter and priority override,
  the candidate list is an order-preserving subsequence of the registry: every candidate
  refers to an entry of the registry, no entry is referred to twice, the candidates stand in
  increasing registry position (the priority order), and the implementations they refer to
  form a subsequence of the registry.
\<close>

theorem filter_priority_preserving:
  "(\<forall>r \<in> set (filter_impls impls a d m p). r < length impls)
   \<and> distinct (filter_impls impls a d m p)
   \<and> sorted_wrt (<) (filter_impls impls a d m p)
   \<and> subseq (map (get impls) (filter_impls impls a d m p)) impls"
  using filter_impls_in_range [of _ impls a d m p] filter_impls_distinct [of impls a d m p]
    filter_impls_sorted [of impls a d m p] filter_impls_get_subseq [of impls a d m p]
  by blast

theorem filter_priority_preserving_witness:
  "filter_impls [implC, implB, implA] 0 2 () [] = [0, 1]
   \<and> 1 < length [implC, implB, implA]
   \<and> distinct (filter_impls [implC, implB, implA] 0 2 () [])
   \<and> sorted_wrt (<) (filter_impls [implC, implB, implA] 0 2 () [])
   \<and> subseq (map (get [implC, implB, implA]) (filter_impls [implC, implB, implA] 0 2 () []))
        [implC, implB, implA]"
proof -
  have e: "filter_impls [implC, implB, implA] 0 2 () [] = [0, 1]"
    by (simp add: filter_impls_def implA_def implB_def implC_def)
  note t = filter_priority_preserving [of "[implC, implB, implA]" 0 2 "()" "[]"]
  have "1 \<in> set (filter_impls [implC, implB, implA] 0 2 () [])"
    by (simp add: e)
  with t [THEN conjunct1] have "1 < length [implC, implB, implA]"
    by (rule bspec)
  then show ?thesis using t [THEN conjunct2] e by blast
qed

subsection \<open>Shape-agnostic implementations\<close>

lemma filter_loop_agnostic_last:
  "distinct (map fst xs) \<Longrightarrow> k < length (filter_loop c m p xs []) \<Longrightarrow>
   (filter_loop c m p xs [] ! k, impl) \<in> set xs \<Longrightarrow> shapeAgnostic impl \<Longrightarrow>
   Suc k = length (filter_loop c m p xs [])"
proof (induction xs arbitrary: k)
  case Nil
  then show ?case by simp
next
  case (Cons x xs)
  obtain i im where x: "x = (i, im)" by (cases x)
  let ?rest = "filter_loop c m p xs []"
  have d: "distinct (map fst xs)" and inot: "i \<notin> fst ` set xs"
    using Cons.prems(1) by (auto simp: x)
  have sub: "\<And>r. r \<in> set ?rest \<Longrightarrow> r \<in> fst ` set xs"
    using subseq_in_set [OF filter_loop_subseq, of _ c m p xs] by auto
  have eq: "filter_loop c m p (x # xs) [] =
      (if (p \<noteq> [] \<and> name im \<noteq> p) \<or> \<not> supports im c m then ?rest
       else if shapeAgnostic im then [i] else i # ?rest)"
    using filter_loop_acc [of c m p xs "[i]"] by (simp add: x)
  consider (skip) "filter_loop c m p (x # xs) [] = ?rest"
    | (stop) "shapeAgnostic im" "filter_loop c m p (x # xs) [] = [i]"
    | (keep) "\<not> shapeAgnostic im" "filter_loop c m p (x # xs) [] = i # ?rest"
    using eq by metis
  then show ?case
  proof cases
    case skip
    have kl: "k < length ?rest" using Cons.prems(2) skip by simp
    have "?rest ! k \<in> set ?rest" using kl by simp
    then have "?rest ! k \<noteq> i" using sub inot by blast
    then have "(?rest ! k, impl) \<in> set xs" using Cons.prems(3) skip by (auto simp: x)
    then show ?thesis using Cons.IH [OF d kl _ Cons.prems(4)] skip by simp
  next
    case stop
    then show ?thesis using Cons.prems(2) by simp
  next
    case keep
    show ?thesis
    proof (cases k)
      case 0
      then have "(i, impl) \<in> set (x # xs)" using Cons.prems(3) keep by simp
      then have "impl = im" using inot by (force simp: x)
      then show ?thesis using keep Cons.prems(4) by simp
    next
      case (Suc j)
      have jl: "j < length ?rest" using Cons.prems(2) keep Suc by simp
      have "?rest ! j \<in> set ?rest" using jl by simp
      then have "?rest ! j \<noteq> i" using sub inot by blast
      then have "(?rest ! j, impl) \<in> set xs" using Cons.prems(3) keep Suc by (auto simp: x)
      then show ?thesis using Cons.IH [OF d jl _ Cons.prems(4)] keep Suc by simp
    qed
  qed
qed

lemma filter_impls_agnostic_last:
  assumes "k < length (filter_impls impls a d m p)"
    and "shapeAgnostic (get impls (filter_impls impls a d m p ! k))"
  shows "Suc k = length (filter_impls impls a d m p)"
proof -
  let ?c = "\<lparr>descs = d, attrs = a\<rparr>"
  let ?xs = "enumerate 0 impls"
  have r: "filter_impls impls a d m p ! k < length impls"
    using assms(1) filter_impls_in_range [of _ impls a d m p] by simp
  have "(filter_loop ?c m p ?xs [] ! k, get impls (filter_loop ?c m p ?xs [] ! k)) \<in> set ?xs"
    using r by (simp add: in_set_enumerate_eq get_def filter_impls_def)
  then show ?thesis
    using filter_loop_agnostic_last [of ?xs k ?c m p] assms
    by (simp add: filter_impls_def)
qed

lemma filter_loop_stop:
  assumes "implementationPriority = [] \<or> name b = implementationPriority"
    and "supports b c m" and "shapeAgnostic b"
  shows "filter_loop c m implementationPriority (xs @ (i, b) # ys) acc
         = filter_loop c m implementationPriority (xs @ [(i, b)]) acc"
proof (induction xs arbitrary: acc)
  case Nil
  show ?case using assms by auto
next
  case (Cons x xs)
  obtain j im where x: "x = (j, im)" by (cases x)
  show ?case using Cons.IH by (auto simp: x)
qed

lemma filter_impls_stop:
  assumes "p = [] \<or> name b = p"
    and "supports b \<lparr>descs = d, attrs = a\<rparr> m" and "shapeAgnostic b"
  shows "filter_impls (pre @ b # post) a d m p = filter_impls (pre @ [b]) a d m p"
  using filter_loop_stop
          [OF assms, of "enumerate 0 pre" "length pre" "enumerate (Suc (length pre)) post" "[]"]
  by (simp add: filter_impls_def enumerate_append_eq)

text \<open>
  Claim C3. In the candidate list a shape-agnostic implementation can only be the last
  element. Once an implementation that passes the name check, is supported and is shape
  agnostic has been reached, the loop stops: the result is that of the registry cut off
  after this entry, whatever the lower-priority entries are.
\<close>

theorem shape_agnostic_short_circuit:
  "(\<forall>k < length (filter_impls impls a d m p).
      shapeAgnostic (get impls (filter_impls impls a d m p ! k))
      \<longrightarrow> Suc k = length (filter_impls impls a d m p))
   \<and> (\<forall>pre b post.
        impls = pre @ b # post \<and> (p = [] \<or> name b = p)
        \<and> supports b \<lparr>descs = d, attrs = a\<rparr> m \<and> shapeAgnostic b
        \<longrightarrow> filter_impls impls a d m p = filter_impls (pre @ [b]) a d m p)"
  using filter_impls_agnostic_last [of _ impls a d m p] filter_impls_stop [of p _ d a m]
  by blast

theorem shape_agnostic_short_circuit_witness:
  "filter_impls [implA, implB, implC] 0 2 () [] = [1]
   \<and> filter_impls [implA, implB, implC] 0 2 () [] = filter_impls [implA, implB] 0 2 () []
   \<and> shapeAgnostic (get [implA, implB, implC] 1) \<and> supports implC \<lparr>descs = 2, attrs = 0\<rparr> ()"
proof -
  have e: "filter_impls [implA, implB, implC] 0 2 () [] = [1]"
    by (simp add: filter_impls_def implA_def implB_def implC_def)
  have b: "supports implB \<lparr>descs = 2, attrs = 0\<rparr> () \<and> shapeAgnostic implB"
    by (simp add: implB_def)
  have c: "supports implC \<lparr>descs = 2, attrs = 0\<rparr> ()" by (simp add: implC_def)
  have s: "shapeAgnostic (get [implA, implB, implC] 1)" by (simp add: get_def implB_def)
  have "[implA, implB, implC] = [implA] @ implB # [implC]" by simp
  then have "filter_impls [implA, implB, implC] 0 2 () [] = filter_impls ([implA] @ [implB]) 0 2 () []"
    using shape_agnostic_short_circuit [of "[implA, implB, implC]" 0 2 "()" "[]"] b by blast
  then show ?thesis using e c s by simp
qed

subsection \<open>Construction\<close>

lemma after_call_same: "after_call impls cc f c = f"
  by (cases c)
    (simp_all add: getProperMemoryDescriptors_def ExecutorFactory_make_def Let_def
       split: option.splits)

lemma after_calls_same: "after_calls impls cc f cs = f"
  unfolding after_calls_def by (induction cs) (simp_all add: after_call_same)

lemma filter_loop_no_match:
  "p \<noteq> [] \<Longrightarrow> \<forall>x \<in> set xs. name (snd x) \<noteq> p \<Longrightarrow> filter_loop c m p xs acc = acc"
  by (induction xs arbitrary: acc) auto

lemma filter_impls_no_match:
  assumes "p \<noteq> []" and "\<forall>impl \<in> set impls. name impl \<noteq> p"
  shows "filter_impls impls a d m p = []"
proof -
  have "\<forall>x \<in> set (enumerate 0 impls). name (snd x) \<noteq> p"
    using assms(2) by (auto simp: in_set_enumerate_eq)
  then show ?thesis
    using filter_loop_no_match [OF assms(1), of "enumerate 0 impls"] by (simp add: filter_impls_def)
qed

lemma ExecutorFactory_new_empty:
  "filter_impls impls a d m p = [] \<Longrightarrow>
   ExecutorFactory_new impls a ctx d m p = Inl (AssertFailure ''No suitable implementations found'')"
  unfolding ExecutorFactory_new_def Let_def by (rule if_P)

lemma ExecutorFactory_new_nonempty:
  "filter_impls impls a d m p \<noteq> [] \<Longrightarrow>
   ExecutorFactory_new impls a ctx d m p
   = Inr \<lparr>m_attrs = a, m_context = ctx, m_suitableImplementations = filter_impls impls a d m p\<rparr>"
  unfolding ExecutorFactory_new_def Let_def by (rule if_not_P)

lemma ExecutorFactory_new_Inr:
  assumes "ExecutorFactory_new impls a ctx d m p = Inr this"
  shows "filter_impls impls a d m p \<noteq> []"
    and "this = \<lparr>m_attrs = a, m_context = ctx, m_suitableImplementations = filter_impls impls a d m p\<rparr>"
proof -
  show ne: "filter_impls impls a d m p \<noteq> []"
  proof
    assume "filter_impls impls a d m p = []"
    then have "ExecutorFactory_new impls a ctx d m p
               = Inl (AssertFailure ''No suitable implementations found'')"
      by (rule ExecutorFactory_new_empty)
    with assms show False by simp
  qed
  show "this = \<lparr>m_attrs = a, m_context = ctx, m_suitableImplementations = filter_impls impls a d m p\<rparr>"
    using ExecutorFactory_new_nonempty [OF ne, of ctx] assms by simp
qed

lemma new_isl:
  "isl (ExecutorFactory_new impls a ctx d m p) \<longleftrightarrow> filter_impls impls a d m p = []"
  using ExecutorFactory_new_empty [of impls a d m p ctx]
    ExecutorFactory_new_nonempty [of impls a d m p ctx]
  by (cases "filter_impls impls a d m p = []") simp_all

lemma new_only_error:
  assumes l: "ExecutorFactory_new impls a ctx d m p = Inl e"
  shows "e = AssertFailure ''No suitable implementations found''"
proof -
  have "filter_impls impls a d m p = []"
    using ExecutorFactory_new_nonempty [of impls a d m p ctx] l
    by (cases "filter_impls impls a d m p = []") simp_all
  then show "e = AssertFailure ''No suitable implementations found''"
    using ExecutorFactory_new_empty [of impls a d m p ctx] l by simp
qed

lemma new_no_match:
  assumes "p \<noteq> []" and "\<forall>impl \<in> set impls. name impl \<noteq> p"
  shows "ExecutorFactory_new impls a ctx d m p
            = Inl (AssertFailure ''No suitable implementations found'')"
  using filter_impls_no_match [OF assms] by (rule ExecutorFactory_new_empty)

lemma new_lifetime:
  assumes n: "ExecutorFactory_new impls a ctx d m p = Inr this"
  shows "m_suitableImplementations (after_calls impls cc this calls) = filter_impls impls a d m p"
    and "1 \<le> length (m_suitableImplementations (after_calls impls cc this calls))"
proof -
  have ne: "filter_impls impls a d m p \<noteq> []"
    and c: "m_suitableImplementations this = filter_impls impls a d m p"
    using ExecutorFactory_new_Inr [OF n] by simp_all
  show "m_suitableImplementations (after_calls impls cc this calls) = filter_impls impls a d m p"
    using c by (simp add: after_calls_same)
  show "1 \<le> length (m_suitableImplementations (after_calls impls cc this calls))"
    using c ne by (cases "filter_impls impls a d m p") (simp_all add: after_calls_same)
qed

text \<open>
  Claim C2. The construction fails exactly when the filter yields no candidate; the failed
  assertion is the only error of the constructor; a priority override that names no
  implementation of the registry fails in the same way. A factory that was constructed
  holds, after any sequence of calls of its member functions, the candidate list the filter
  produced, which has at least one element.
\<close>

theorem construction_fails_iff_no_candidate:
  "(isl (ExecutorFactory_new impls a ctx d m p) \<longleftrightarrow> filter_impls impls a d m p = [])
   \<and> (\<forall>e. ExecutorFactory_new impls a ctx d m p = Inl e
          \<longrightarrow> e = AssertFailure ''No suitable implementations found'')
   \<and> (p \<noteq> [] \<and> (\<forall>impl \<in> set impls. name impl \<noteq> p)
        \<longrightarrow> ExecutorFactory_new impls a ctx d m p
            = Inl (AssertFailure ''No suitable implementations found''))
   \<and> (\<forall>this calls. ExecutorFactory_new impls a ctx d m p = Inr this
        \<longrightarrow> m_suitableImplementations (after_calls impls cc this calls)
              = filter_impls impls a d m p
            \<and> 1 \<le> length (m_suitableImplementations (after_calls impls cc this calls)))"
  apply (rule conjI)
   apply (rule new_isl)
  apply (rule conjI)
   apply (rule allI, rule impI, erule new_only_error)
  apply (rule conjI)
   apply (rule impI, erule conjE, erule (1) new_no_match)
  apply (rule allI, rule allI, rule impI, rule conjI)
   apply (erule new_lifetime(1))
  apply (erule new_lifetime(2))
  done

theorem construction_fails_iff_no_candidate_witness:
  "ExecutorFactory_new [implC, implB, implA] 0 () 2 () ''Z''
     = Inl (AssertFailure ''No suitable implementations found'')
   \<and> ExecutorFactory_new [implC, implB, implA] 0 () 2 () []
     = Inr \<lparr>m_attrs = 0, m_context = (), m_suitableImplementations = [0, 1]\<rparr>
   \<and> m_suitableImplementations
       (after_calls [implC, implB, implA] createConfig_example
          \<lparr>m_attrs = 0, m_context = (), m_suitableImplementations = [0, 1]\<rparr>
          [CallMake 2, CallGetProperMemoryDescriptors 1, CallMake 1]) = [0, 1]"
proof -
  let ?reg = "[implC, implB, implA]"
  let ?fac = "\<lparr>m_attrs = 0::nat, m_context = (), m_suitableImplementations = [0, 1]\<rparr>"
  let ?calls = "[CallMake 2, CallGetProperMemoryDescriptors 1, CallMake 1] :: (nat, nat) call list"
  have e: "filter_impls ?reg 0 2 () [] = [0, 1]"
    by (simp add: filter_impls_def implA_def implB_def implC_def)
  have n: "ExecutorFactory_new ?reg 0 () 2 () [] = Inr ?fac"
    using ExecutorFactory_new_nonempty [of ?reg 0 2 "()" "[]" "()"] by (simp add: e)
  have z: "''Z'' \<noteq> [] \<and> (\<forall>impl \<in> set ?reg. name impl \<noteq> ''Z'')"
    by (simp add: implA_def implB_def implC_def)
  have fails: "ExecutorFactory_new ?reg 0 () 2 () ''Z''
     = Inl (AssertFailure ''No suitable implementations found'')"
    using construction_fails_iff_no_candidate
            [of ?reg 0 "()" 2 "()" "''Z''" createConfig_example,
             THEN conjunct2, THEN conjunct2, THEN conjunct1] z
    by (rule mp)
  have "m_suitableImplementations (after_calls ?reg createConfig_example ?fac ?calls)
        = filter_impls ?reg 0 2 () []"
    using construction_fails_iff_no_candidate
            [of ?reg 0 "()" 2 "()" "[]" createConfig_example,
             THEN conjunct2, THEN conjunct2, THEN conjunct2, THEN spec, THEN spec, THEN mp,
             OF n, THEN conjunct1]
    by this
  then show ?thesis using fails n e by simp
qed

subsection \<open>getProperMemoryDescriptors\<close>

lemma getProper_loop_map:
  "getProper_loop impls c rs acc = acc @ map (\<lambda>r. getProperMemoryDescArgs (get impls r) c) rs"
  by (induction rs arbitrary: acc) simp_all

text \<open>
  Claim C5. For a constructed factory and any descriptors, the list that
  getProperMemoryDescriptors returns is as long as the candidate list; its i-th entry is the
  descriptor set of the fallback configuration when the i-th candidate's fallback predicate,
  asked on the Config of the given descriptors and the stored attributes, requests a
  fallback, and the given descriptors otherwise; the factory is left as it was.
\<close>

theorem getProperMemoryDescriptors_parallel:
  assumes "ExecutorFactory_new impls a ctx d m p = Inr this"
  shows "length (fst (getProperMemoryDescriptors impls this descriptors))
           = length (m_suitableImplementations this)
         \<and> (\<forall>i < length (m_suitableImplementations this).
               \<forall>fallbackConfig.
                 (requiresFallback (get impls (m_suitableImplementations this ! i))
                    \<lparr>descs = descriptors, attrs = a\<rparr> = Some fallbackConfig
                  \<longrightarrow> fst (getProperMemoryDescriptors impls this descriptors) ! i
                       = descs fallbackConfig)
                 \<and> (requiresFallback (get impls (m_suitableImplementations this ! i))
                      \<lparr>descs = descriptors, attrs = a\<rparr> = None
                    \<longrightarrow> fst (getProperMemoryDescriptors impls this descriptors) ! i
                         = descriptors))
         \<and> snd (getProperMemoryDescriptors impls this descriptors) = this"
proof -
  have at: "m_attrs this = a"
    using ExecutorFactory_new_Inr(2) [OF assms] by simp
  show ?thesis
    by (simp add: getProperMemoryDescriptors_def getProper_loop_map getProperMemoryDescArgs_def at Let_def)
qed

theorem getProperMemoryDescriptors_parallel_witness:
  "ExecutorFactory_new [implC, implB, implA] 0 () 2 () []
     = Inr \<lparr>m_attrs = 0, m_context = (), m_suitableImplementations = [0, 1]\<rparr>
   \<and> fst (getProperMemoryDescriptors [implC, implB, implA]
            \<lparr>m_attrs = 0, m_context = (), m_suitableImplementations = [0, 1]\<rparr> 2) = [2, 1]"
proof -
  let ?reg = "[implC, implB, implA]"
  let ?fac = "\<lparr>m_attrs = 0::nat, m_context = (), m_suitableImplementations = [0, 1]\<rparr>"
  have e: "filter_impls ?reg 0 2 () [] = [0, 1]"
    by (simp add: filter_impls_def implA_def implB_def implC_def)
  have n: "ExecutorFactory_new ?reg 0 () 2 () [] = Inr ?fac"
    using ExecutorFactory_new_nonempty [of ?reg 0 2 "()" "[]" "()"] by (simp add: e)
  have r0: "requiresFallback (get ?reg 0) \<lparr>descs = 2, attrs = 0\<rparr> = None"
    by (simp add: get_def implC_def)
  have r1: "requiresFallback (get ?reg 1) \<lparr>descs = 2, attrs = 0\<rparr> = Some \<lparr>descs = 1, attrs = 0\<rparr>"
    by (simp add: get_def implB_def)
  note t = getProperMemoryDescriptors_parallel [OF n, of 2]
  have len: "length (fst (getProperMemoryDescriptors ?reg ?fac 2)) = 2"
    using t by simp
  have i0: "fst (getProperMemoryDescriptors ?reg ?fac 2) ! 0 = 2"
    using t r0 by simp
  have i1: "fst (getProperMemoryDescriptors ?reg ?fac 2) ! 1 = 1"
    using t r1 by simp
  have "fst (getProperMemoryDescriptors ?reg ?fac 2) = [2, 1]"
    using len i0 i1 by (intro nth_equalityI) (auto simp: less_Suc_eq numeral_2_eq_2)
  then show ?thesis using n by simp
qed

subsection \<open>make\<close>

text \<open>
  Claim C1. For a constructed factory, make returns a Variable executor exactly when there
  are two or more candidates, and then it holds the memory arguments, attributes, context
  and the whole candidate list. With exactly one candidate, make returns the Fallback
  executor when that candidate's fallback predicate, asked on the Config derived from the
  memory arguments and the stored attributes, requests a fallback, and otherwise the Simple
  executor that the candidate's factory creates; in neither case a Variable executor.
\<close>

theorem make_shape:
  assumes "ExecutorFactory_new impls a ctx d m p = Inr this"
  shows "(is_Variable (fst (ExecutorFactory_make impls cc this memory))
            \<longleftrightarrow> 2 \<le> length (m_suitableImplementations this))
         \<and> (2 \<le> length (m_suitableImplementations this)
              \<longrightarrow> fst (ExecutorFactory_make impls cc this memory)
                   = Variable memory a ctx (m_suitableImplementations this))
         \<and> (length (m_suitableImplementations this) = 1
              \<longrightarrow> (\<forall>fallbackConfig.
                     requiresFallback (get impls (hd (m_suitableImplementations this)))
                       (cc memory a) = Some fallbackConfig
                     \<longrightarrow> fst (ExecutorFactory_make impls cc this memory)
                          = Fallback (cc memory a) fallbackConfig memory ctx
                              (name (get impls (hd (m_suitableImplementations this)))))
                \<and> (requiresFallback (get impls (hd (m_suitableImplementations this)))
                      (cc memory a) = None
                    \<longrightarrow> fst (ExecutorFactory_make impls cc this memory)
                         = Simple (create (get impls (hd (m_suitableImplementations this)))
                                     a memory ctx))
                \<and> \<not> is_Variable (fst (ExecutorFactory_make impls cc this memory)))"
proof -
  have ne: "m_suitableImplementations this \<noteq> []" and at: "m_attrs this = a"
    and cx: "m_context this = ctx"
    using ExecutorFactory_new_Inr [OF assms] by simp_all
  have len: "length (m_suitableImplementations this) \<noteq> 1
             \<longleftrightarrow> 2 \<le> length (m_suitableImplementations this)"
    using ne by (cases "m_suitableImplementations this") (auto simp: Suc_le_eq)
  show ?thesis
    using len by (auto simp: ExecutorFactory_make_def Let_def at cx split: option.splits)
qed

theorem make_shape_witness:
  "ExecutorFactory_new [implC, implB, implA] 0 () 2 () []
     = Inr \<lparr>m_attrs = 0, m_context = (), m_suitableImplementations = [0, 1]\<rparr>
   \<and> fst (ExecutorFactory_make [implC, implB, implA] createConfig_example
            \<lparr>m_attrs = 0, m_context = (), m_suitableImplementations = [0, 1]\<rparr> 2)
     = Variable 2 0 () [0, 1]
   \<and> ExecutorFactory_new [implA, implB, implC] 0 () 2 () []
     = Inr \<lparr>m_attrs = 0, m_context = (), m_suitableImplementations = [1]\<rparr>
   \<and> fst (ExecutorFactory_make [implA, implB, implC] createConfig_example
            \<lparr>m_attrs = 0, m_context = (), m_suitableImplementations = [1]\<rparr> 2)
     = Fallback \<lparr>descs = 2, attrs = 0\<rparr> \<lparr>descs = 1, attrs = 0\<rparr> 2 () ''B''
   \<and> fst (ExecutorFactory_make [implA, implB, implC] createConfig_example
            \<lparr>m_attrs = 0, m_context = (), m_suitableImplementations = [1]\<rparr> 1)
     = Simple ''executor of B''"
proof -
  let ?reg2 = "[implC, implB, implA]"
  let ?fac2 = "\<lparr>m_attrs = 0::nat, m_context = (), m_suitableImplementations = [0, 1]\<rparr>"
  let ?reg1 = "[implA, implB, implC]"
  let ?fac1 = "\<lparr>m_attrs = 0::nat, m_context = (), m_suitableImplementations = [1]\<rparr>"
  have e2: "filter_impls ?reg2 0 2 () [] = [0, 1]"
    by (simp add: filter_impls_def implA_def implB_def implC_def)
  have n2: "ExecutorFactory_new ?reg2 0 () 2 () [] = Inr ?fac2"
    using ExecutorFactory_new_nonempty [of ?reg2 0 2 "()" "[]" "()"] by (simp add: e2)
  have e1: "filter_impls ?reg1 0 2 () [] = [1]"
    by (simp add: filter_impls_def implA_def implB_def implC_def)
  have n1: "ExecutorFactory_new ?reg1 0 () 2 () [] = Inr ?fac1"
    using ExecutorFactory_new_nonempty [of ?reg1 0 2 "()" "[]" "()"] by (simp add: e1)
  have v: "fst (ExecutorFactory_make ?reg2 createConfig_example ?fac2 2) = Variable 2 0 () [0, 1]"
    using make_shape [OF n2, of createConfig_example 2] by simp
  have rf: "requiresFallback (get ?reg1 (hd [1])) (createConfig_example 2 0)
            = Some \<lparr>descs = 1, attrs = 0\<rparr>"
    by (simp add: get_def implB_def createConfig_example_def)
  have rs: "requiresFallback (get ?reg1 (hd [1])) (createConfig_example 1 0) = None"
    by (simp add: get_def implB_def createConfig_example_def)
  have nm: "name (get ?reg1 (hd [1])) = ''B''"
    and cr: "create (get ?reg1 (hd [1])) 0 1 () = ''executor of B''"
    by (simp_all add: get_def implB_def)
  have f: "fst (ExecutorFactory_make ?reg1 createConfig_example ?fac1 2)
           = Fallback \<lparr>descs = 2, attrs = 0\<rparr> \<lparr>descs = 1, attrs = 0\<rparr> 2 () ''B''"
    using make_shape [OF n1, of createConfig_example 2] rf nm
    by (simp add: createConfig_example_def)
  have s: "fst (ExecutorFactory_make ?reg1 createConfig_example ?fac1 1) = Simple ''executor of B''"
    using make_shape [OF n1, of createConfig_example 1] rs cr
    by simp
  show ?thesis using n2 v n1 f s by simp
qed

section \<open>Properties of the TopK downgrade\<close>

subsection \<open>What the callback computes\<close>

lemma cast_Some_iff:
  "dynamic_pointer_cast_TopK_v11 g (Some h) = None \<longleftrightarrow>
   (\<forall>n a. get_node g h = Some n \<longrightarrow> operation n \<noteq> opset11_TopK a)"
  by (auto simp: dynamic_pointer_cast_TopK_v11_def split: option.splits Op.splits)

lemma cast_Some_v11:
  "get_node g h = Some n \<Longrightarrow> operation n = opset11_TopK a \<Longrightarrow>
   dynamic_pointer_cast_TopK_v11 g (Some h) = Some h"
  by (simp add: dynamic_pointer_cast_TopK_v11_def)

lemma deref_v11:
  "get_node g h = Some n \<Longrightarrow> operation n = opset11_TopK a \<Longrightarrow>
   deref_TopK_v11 g (Some h) = Inr (h, n, a)"
  by (simp add: deref_TopK_v11_def)

lemma callback_v11:
  assumes "get_node g h = Some n" and "operation n = opset11_TopK a"
  shows "callback veto g (Some h) =
     (if stable a then Inr (False, g)
      else if veto g h then Inr (False, g)
      else if length (inputs n) < 2 then Inl InputIndexOutOfRange
      else Inr (True, replace_node g h
             \<lparr>operation = opset3_TopK \<lparr>axis = axis a, mode = mode a, sort_type = sort_type a,
                   index_element_type = index_element_type a\<rparr>,
                 inputs = [inputs n ! 0, inputs n ! 1], friendly_name = friendly_name n,
                 rt_info = rt_info n\<rparr>))"
  by (simp add: callback_def cast_Some_v11 [OF assms] deref_v11 [OF assms] input_value_def
      make_shared_TopK_v3_def set_friendly_name_def get_friendly_name_def copy_runtime_info_def
      Let_def)

lemma callback_not_v11:
  assumes "dynamic_pointer_cast_TopK_v11 g root = None"
  shows "callback veto g root = Inr (False, g)"
  using assms by (simp add: callback_def)

lemma apply_node_None: "get_node g h = None \<Longrightarrow> apply_node veto g h = Inr (False, g)"
  by (simp add: apply_node_def)

lemma apply_node_other:
  "get_node g h = Some n \<Longrightarrow> \<forall>a. operation n \<noteq> opset11_TopK a \<Longrightarrow>
   apply_node veto g h = Inr (False, g)"
  by (cases "operation n") (simp_all add: apply_node_def)

lemma apply_node_v11:
  "get_node g h = Some n \<Longrightarrow> operation n = opset11_TopK a \<Longrightarrow>
   apply_node veto g h = callback veto g (Some h)"
  by (simp add: apply_node_def)

lemma get_node_replace_node:
  assumes "t < length g"
  shows "get_node (replace_node g t r) j =
     (if j = t then None
      else if j = length g then Some (r\<lparr>inputs := map (rewire t (length g)) (inputs r)\<rparr>)
      else map_option (\<lambda>n. n\<lparr>inputs := map (rewire t (length g)) (inputs n)\<rparr>) (get_node g j))"
proof -
  consider "j = t" | "j \<noteq> t" "j = length g" | "j \<noteq> t" "j < length g" | "j > length g"
    by linarith
  then show ?thesis
  proof cases
    case 1
    then show ?thesis using assms by (simp add: get_node_def replace_node_def Let_def)
  next
    case 2
    then show ?thesis by (simp add: get_node_def replace_node_def Let_def nth_append)
  next
    case 3
    then show ?thesis by (simp add: get_node_def replace_node_def Let_def nth_append)
  next
    case 4
    then show ?thesis using assms by (simp add: get_node_def replace_node_def Let_def)
  qed
qed

lemma get_node_Some_less: "get_node g h = Some n \<Longrightarrow> h < length g"
  by (simp add: get_node_def split: if_splits)

lemma get_node_length: "get_node g (length g) = None"
  by (simp add: get_node_def)

lemma rewire_other: "out_node out \<noteq> t \<Longrightarrow> rewire t r out = out"
  by (simp add: rewire_def)

lemma map_rewire_id: "t \<notin> out_node ` set outs \<Longrightarrow> map (rewire t r) outs = outs"
  by (induction outs) (simp_all add: rewire_other)

lemma apply_node_cases:
  assumes "apply_node veto g h = Inr (c, g')"
  shows "(\<not> c \<and> g' = g) \<or>
         (c \<and> (\<exists>n a. get_node g h = Some n \<and> operation n = opset11_TopK a \<and> \<not> stable a
                \<and> \<not> veto g h \<and> 2 \<le> length (inputs n)
                \<and> g' = replace_node g h
                     \<lparr>operation = opset3_TopK \<lparr>axis = axis a, mode = mode a,
                          sort_type = sort_type a, index_element_type = index_element_type a\<rparr>,
                        inputs = [inputs n ! 0, inputs n ! 1], friendly_name = friendly_name n,
                        rt_info = rt_info n\<rparr>))"
proof (cases "get_node g h")
  case None
  then show ?thesis using assms by (simp add: apply_node_None)
next
  case (Some n)
  show ?thesis
  proof (cases "\<exists>a. operation n = opset11_TopK a")
    case False
    then show ?thesis using assms apply_node_other [OF Some, of veto] by simp
  next
    case True
    then obtain a where a: "operation n = opset11_TopK a" by blast
    show ?thesis
      using assms Some a apply_node_v11 [OF Some a, of veto] callback_v11 [OF Some a, of veto]
      by (auto split: if_splits)
  qed
qed

lemmas example_defs = graph_example_def graph_stable_example_def example_TopK_v11_def
  example_other_def

lemmas rewrite_defs = apply_node_def get_node_def callback_def dynamic_pointer_cast_TopK_v11_def
  deref_TopK_v11_def input_value_def make_shared_TopK_v3_def set_friendly_name_def
  get_friendly_name_def copy_runtime_info_def replace_node_def rewire_def Let_def

lemma example_topk_b:
  "get_node graph_example 3 = Some (example_TopK_v11 False 2 ''topk_b'')"
  by (simp add: get_node_def graph_example_def)

lemma example_topk_b_fires:
  "apply_node (\<lambda>_ _. False) graph_example 3
   = Inr (True,
       [Some (example_other ''Parameter'' []),
        Some (example_other ''Constant'' []),
        Some (example_TopK_v11 False 0 ''topk_a''),
        None,
        Some (example_other ''Result'' [\<lparr>out_node = 5, out_index = 1\<rparr>]),
        Some \<lparr>operation = opset3_TopK \<lparr>axis = 1, mode = TopKMode_MAX,
                              sort_type = SORT_VALUES, index_element_type = 0\<rparr>,
              inputs = [\<lparr>out_node = 2, out_index = 0\<rparr>, \<lparr>out_node = 1, out_index = 0\<rparr>],
              friendly_name = ''topk_b'', rt_info = [(''origin'', ''topk_b'')]\<rparr>])"
  by (simp add: example_defs rewrite_defs)

subsection \<open>Declined rewrites\<close>

text \<open>
  Claim C6. A node presented to the rewrite that is not a TopK of version 11, or whose
  stable flag is set, or for which the veto callback answers true, is declined: the result is
  false and the graph is the one that was given, with no node created, removed or rewired.
  The callback alone, handed such a node as the match root, declines in the same way.
\<close>

theorem declined_rewrite_untouched:
  assumes "get_node g h = Some n"
    and "(\<forall>a. operation n \<noteq> opset11_TopK a)
         \<or> (\<exists>a. operation n = opset11_TopK a \<and> stable a)
         \<or> veto g h"
  shows "apply_node veto g h = Inr (False, g) \<and> callback veto g (Some h) = Inr (False, g)"
proof (cases "\<exists>a. operation n = opset11_TopK a")
  case False
  then have no: "\<forall>a. operation n \<noteq> opset11_TopK a" by simp
  have "dynamic_pointer_cast_TopK_v11 g (Some h) = None"
    using assms(1) no by (simp add: cast_Some_iff)
  then show ?thesis
    using apply_node_other [OF assms(1) no] callback_not_v11 by simp
next
  case True
  then obtain a where a: "operation n = opset11_TopK a" by blast
  have "stable a \<or> veto g h" using assms(2) a by auto
  then have "callback veto g (Some h) = Inr (False, g)"
    using callback_v11 [OF assms(1) a, of veto] by auto
  then show ?thesis using apply_node_v11 [OF assms(1) a, of veto] by simp
qed

theorem declined_rewrite_untouched_witness:
  "apply_node (\<lambda>_ _. False) graph_example 0 = Inr (False, graph_example)
   \<and> apply_node (\<lambda>_ _. False) graph_stable_example 2 = Inr (False, graph_stable_example)
   \<and> apply_node veto_by_name graph_example 2 = Inr (False, graph_example)
   \<and> apply_node veto_by_name graph_example 3 \<noteq> Inr (False, graph_example)"
proof -
  have n0: "get_node graph_example 0 = Some (example_other ''Parameter'' [])"
    by (simp add: get_node_def graph_example_def)
  have c0: "(\<forall>a. operation (example_other ''Parameter'' []) \<noteq> opset11_TopK a)
            \<or> (\<exists>a. operation (example_other ''Parameter'' []) = opset11_TopK a \<and> stable a)
            \<or> False"
    by (simp add: example_other_def)
  have ns: "get_node graph_stable_example 2 = Some (example_TopK_v11 True 0 ''topk_s'')"
    by (simp add: get_node_def graph_stable_example_def)
  have cs: "(\<forall>a. operation (example_TopK_v11 True 0 ''topk_s'') \<noteq> opset11_TopK a)
            \<or> (\<exists>a. operation (example_TopK_v11 True 0 ''topk_s'') = opset11_TopK a \<and> stable a)
            \<or> False"
    by (simp add: example_TopK_v11_def)
  have nv: "get_node graph_example 2 = Some (example_TopK_v11 False 0 ''topk_a'')"
    by (simp add: get_node_def graph_example_def)
  have cv: "(\<forall>a. operation (example_TopK_v11 False 0 ''topk_a'') \<noteq> opset11_TopK a)
            \<or> (\<exists>a. operation (example_TopK_v11 False 0 ''topk_a'') = opset11_TopK a \<and> stable a)
            \<or> veto_by_name graph_example 2"
    by (simp add: veto_by_name_def nv) (simp add: example_TopK_v11_def)
  have other: "apply_node veto_by_name graph_example 3 \<noteq> Inr (False, graph_example)"
    by (simp add: veto_by_name_def example_defs rewrite_defs)
  show ?thesis
    using declined_rewrite_untouched [where veto = "\<lambda>_ _. False", OF n0 c0, THEN conjunct1]
      declined_rewrite_untouched [where veto = "\<lambda>_ _. False", OF ns cs, THEN conjunct1]
      declined_rewrite_untouched [where veto = veto_by_name, OF nv cv, THEN conjunct1] other
    by simp
qed

text \<open>
  Claim C9. When the downcast of the match root to a TopK of version 11 yields null, the
  callback returns false at once and leaves the graph as it is; on no match root at all does
  it read through a null pointer.
\<close>

theorem callback_null_safe:
  "(dynamic_pointer_cast_TopK_v11 g match_root = None
      \<longrightarrow> callback veto g match_root = Inr (False, g))
   \<and> callback veto g match_root \<noteq> Inl NullPointerDereference"
proof (cases "dynamic_pointer_cast_TopK_v11 g match_root")
  case None
  then show ?thesis using callback_not_v11 [of g match_root veto] by simp
next
  case (Some h')
  then obtain h n a where r: "match_root = Some h" and n: "get_node g h = Some n"
    and a: "operation n = opset11_TopK a"
    by (auto simp: dynamic_pointer_cast_TopK_v11_def split: option.splits Op.splits)
  show ?thesis
    using Some callback_v11 [OF n a, of veto] by (simp add: r)
qed

theorem callback_null_safe_witness:
  "dynamic_pointer_cast_TopK_v11 graph_example (Some 0) = None
   \<and> callback (\<lambda>_ _. False) graph_example (Some 0) = Inr (False, graph_example)
   \<and> dynamic_pointer_cast_TopK_v11 graph_example None = None
   \<and> callback (\<lambda>_ _. False) graph_example None = Inr (False, graph_example)"
proof -
  have c0: "dynamic_pointer_cast_TopK_v11 graph_example (Some 0) = None"
    by (simp add: dynamic_pointer_cast_TopK_v11_def get_node_def example_defs)
  have cn: "dynamic_pointer_cast_TopK_v11 graph_example None = None"
    by (simp add: dynamic_pointer_cast_TopK_v11_def)
  show ?thesis
    using callback_null_safe [of graph_example "Some 0" "\<lambda>_ _. False", THEN conjunct1, THEN mp,
            OF c0]
      callback_null_safe [of graph_example None "\<lambda>_ _. False", THEN conjunct1, THEN mp, OF cn]
      c0 cn
    by simp
qed

subsection \<open>The rewrite that fires\<close>

text \<open>
  Claim C7. For a TopK-v11 node (with its two inputs, in a graph where no node reads its own
  output) whose stable flag is false and which the veto callback lets pass, the rewrite
  returns true. The replacement is a new TopK-v3 node with the same input bindings, the axis,
  mode, sort type and index element type of the original, and its friendly name and runtime
  info. The original node is gone and no input refers to it any more; every other node keeps
  its operation, name and runtime info, and each of its inputs that referred to an output of
  the original refers to the output of the replacement with the same index, the other inputs
  being unchanged.
\<close>

theorem rewrite_replaces_node:
  assumes n: "get_node g h = Some n" and a: "operation n = opset11_TopK a"
    and gate: "\<not> stable a" and allow: "\<not> veto g h"
    and two: "length (inputs n) = 2" and acyclic: "h \<notin> out_node ` set (inputs n)"
  shows "\<exists>g'. apply_node veto g h = Inr (True, g')
      \<and> get_node g (length g) = None
      \<and> get_node g' (length g)
          = Some \<lparr>operation = opset3_TopK \<lparr>axis = axis a, mode = mode a,
                      sort_type = sort_type a, index_element_type = index_element_type a\<rparr>,
                   inputs = inputs n, friendly_name = friendly_name n, rt_info = rt_info n\<rparr>
      \<and> get_node g' h = None
      \<and> (\<forall>c m. get_node g' c = Some m \<longrightarrow> h \<notin> out_node ` set (inputs m))
      \<and> (\<forall>c m. c \<noteq> h \<and> get_node g c = Some m \<longrightarrow>
            (\<exists>m'. get_node g' c = Some m' \<and> operation m' = operation m
               \<and> friendly_name m' = friendly_name m \<and> rt_info m' = rt_info m
               \<and> length (inputs m') = length (inputs m)
               \<and> (\<forall>i < length (inputs m).
                     inputs m' ! i =
                       (if out_node (inputs m ! i) = h
                        then \<lparr>out_node = length g, out_index = out_index (inputs m ! i)\<rparr>
                        else inputs m ! i))))"
proof -
  let ?r = "\<lparr>operation = opset3_TopK \<lparr>axis = axis a, mode = mode a,
                 sort_type = sort_type a, index_element_type = index_element_type a\<rparr>,
              inputs = inputs n, friendly_name = friendly_name n, rt_info = rt_info n\<rparr>"
  let ?g' = "replace_node g h ?r"
  have hl: "h < length g" using n by (rule get_node_Some_less)
  have ins: "[inputs n ! 0, inputs n ! 1] = inputs n"
    using two by (cases "inputs n"; cases "tl (inputs n)") auto
  have fires: "apply_node veto g h = Inr (True, ?g')"
    using apply_node_v11 [OF n a, of veto] callback_v11 [OF n a, of veto] gate allow two ins
    by simp
  have new: "get_node ?g' (length g) = Some ?r"
    using hl acyclic by (simp add: get_node_replace_node map_rewire_id)
  have old: "get_node ?g' h = None"
    using hl by (simp add: get_node_replace_node)
  have nodangling: "h \<notin> out_node ` set (inputs m)" if gm: "get_node ?g' c = Some m" for c m
  proof (cases "c = length g")
    case True
    then show ?thesis using gm new acyclic by auto
  next
    case False
    then obtain m0 where m0: "m = m0\<lparr>inputs := map (rewire h (length g)) (inputs m0)\<rparr>"
      using gm hl by (auto simp: get_node_replace_node split: if_splits)
    have "out_node out \<noteq> h" if mem: "out \<in> set (inputs m)" for out
    proof -
      obtain x where "out = rewire h (length g) x" using mem m0 by auto
      then show ?thesis using hl by (simp add: rewire_def)
    qed
    then show ?thesis by blast
  qed
  have consumers: "\<exists>m'. get_node ?g' c = Some m' \<and> operation m' = operation m
               \<and> friendly_name m' = friendly_name m \<and> rt_info m' = rt_info m
               \<and> length (inputs m') = length (inputs m)
               \<and> (\<forall>i < length (inputs m).
                     inputs m' ! i =
                       (if out_node (inputs m ! i) = h
                        then \<lparr>out_node = length g, out_index = out_index (inputs m ! i)\<rparr>
                        else inputs m ! i))"
    if "c \<noteq> h \<and> get_node g c = Some m" for c m
  proof -
    have cl: "c \<noteq> length g" using that get_node_Some_less by blast
    have "get_node ?g' c = Some (m\<lparr>inputs := map (rewire h (length g)) (inputs m)\<rparr>)"
      using that hl cl by (simp add: get_node_replace_node)
    then show ?thesis by (simp add: rewire_def)
  qed
  show ?thesis
    using fires get_node_length new old nodangling consumers by blast
qed

theorem rewrite_replaces_node_witness:
  "\<exists>g'. apply_node (\<lambda>_ _. False) graph_example 3 = Inr (True, g')
     \<and> get_node g' 5
         = Some \<lparr>operation = opset3_TopK \<lparr>axis = 1, mode = TopKMode_MAX,
                              sort_type = SORT_VALUES, index_element_type = 0\<rparr>,
                 inputs = [\<lparr>out_node = 2, out_index = 0\<rparr>, \<lparr>out_node = 1, out_index = 0\<rparr>],
                 friendly_name = ''topk_b'', rt_info = [(''origin'', ''topk_b'')]\<rparr>
     \<and> get_node g' 3 = None
     \<and> (\<exists>m'. get_node g' 4 = Some m' \<and> operation m' = OtherOp ''Result''
            \<and> inputs m' ! 0 = \<lparr>out_node = 5, out_index = 1\<rparr>)"
proof -
  let ?n = "example_TopK_v11 False 2 ''topk_b''"
  let ?a = "\<lparr>axis = 1, mode = TopKMode_MAX, sort_type = SORT_VALUES, index_element_type = 0,
             stable = False\<rparr>"
  have a: "operation ?n = opset11_TopK ?a" by (simp add: example_TopK_v11_def)
  have gate: "\<not> stable ?a" by simp
  have allow: "\<not> (\<lambda>_ _. False) graph_example (3::nat)" by simp
  have two: "length (inputs ?n) = 2" by (simp add: example_TopK_v11_def)
  have acyclic: "3 \<notin> out_node ` set (inputs ?n)" by (simp add: example_TopK_v11_def)
  have len: "length graph_example = 5" by (simp add: graph_example_def)
  have res: "get_node graph_example 4
             = Some (example_other ''Result'' [\<lparr>out_node = 3, out_index = 1\<rparr>])"
    by (simp add: get_node_def graph_example_def)
  obtain g' where fires: "apply_node (\<lambda>_ _. False) graph_example 3 = Inr (True, g')"
    and new: "get_node g' (length graph_example)
          = Some \<lparr>operation = opset3_TopK \<lparr>axis = axis ?a, mode = mode ?a,
                      sort_type = sort_type ?a, index_element_type = index_element_type ?a\<rparr>,
                   inputs = inputs ?n, friendly_name = friendly_name ?n, rt_info = rt_info ?n\<rparr>"
    and old: "get_node g' 3 = None"
    and consumers: "\<forall>c m. c \<noteq> 3 \<and> get_node graph_example c = Some m \<longrightarrow>
            (\<exists>m'. get_node g' c = Some m' \<and> operation m' = operation m
               \<and> friendly_name m' = friendly_name m \<and> rt_info m' = rt_info m
               \<and> length (inputs m') = length (inputs m)
               \<and> (\<forall>i < length (inputs m).
                     inputs m' ! i =
                       (if out_node (inputs m ! i) = 3
                        then \<lparr>out_node = length graph_example,
                               out_index = out_index (inputs m ! i)\<rparr>
                        else inputs m ! i)))"
    using rewrite_replaces_node
            [where veto = "\<lambda>_ _. False", OF example_topk_b a gate allow two acyclic]
    by blast
  have "\<exists>m'. get_node g' 4 = Some m' \<and> operation m' = OtherOp ''Result''
            \<and> inputs m' ! 0 = \<lparr>out_node = 5, out_index = 1\<rparr>"
    using consumers [THEN spec, THEN spec, THEN mp, OF conjI, OF _ res]
    by (auto simp: example_other_def len)
  then show ?thesis
    using fires new old by (auto simp: len example_TopK_v11_def)
qed

text \<open>
  Claim C10. When the rewrite fires, the node at the handle is a TopK of version 11 whose
  stable flag is false, and the replacement is built from its first two input values and its
  axis, mode, sort type and index element type. The operation of the replacement has no
  stable attribute, so none is transferred.
\<close>

theorem replacement_built_from:
  assumes "apply_node veto g h = Inr (True, g')"
  shows "\<exists>n a. get_node g h = Some n \<and> operation n = opset11_TopK a \<and> \<not> stable a
           \<and> 2 \<le> length (inputs n)
           \<and> g' = replace_node g h
                \<lparr>operation = opset3_TopK \<lparr>axis = axis a, mode = mode a,
                     sort_type = sort_type a, index_element_type = index_element_type a\<rparr>,
                   inputs = [inputs n ! 0, inputs n ! 1], friendly_name = friendly_name n,
                   rt_info = rt_info n\<rparr>
           \<and> (\<exists>r. get_node g' (length g) = Some r
                 \<and> operation r = opset3_TopK \<lparr>axis = axis a, mode = mode a,
                      sort_type = sort_type a, index_element_type = index_element_type a\<rparr>
                 \<and> inputs r = map (rewire h (length g)) [inputs n ! 0, inputs n ! 1])"
proof -
  obtain n a where n: "get_node g h = Some n" and a: "operation n = opset11_TopK a"
    and s: "\<not> stable a" and l: "2 \<le> length (inputs n)"
    and g': "g' = replace_node g h
                \<lparr>operation = opset3_TopK \<lparr>axis = axis a, mode = mode a,
                     sort_type = sort_type a, index_element_type = index_element_type a\<rparr>,
                   inputs = [inputs n ! 0, inputs n ! 1], friendly_name = friendly_name n,
                   rt_info = rt_info n\<rparr>"
    using apply_node_cases [OF assms] by blast
  have hl: "h < length g" using n by (rule get_node_Some_less)
  have "\<exists>r. get_node g' (length g) = Some r
                 \<and> operation r = opset3_TopK \<lparr>axis = axis a, mode = mode a,
                      sort_type = sort_type a, index_element_type = index_element_type a\<rparr>
                 \<and> inputs r = map (rewire h (length g)) [inputs n ! 0, inputs n ! 1]"
    using hl by (simp add: g' get_node_replace_node)
  then show ?thesis using n a s l g' by blast
qed

theorem replacement_built_from_witness:
  "\<exists>g' n a. apply_node (\<lambda>_ _. False) graph_example 3 = Inr (True, g')
     \<and> get_node graph_example 3 = Some n \<and> operation n = opset11_TopK a \<and> \<not> stable a
     \<and> 2 \<le> length (inputs n)
     \<and> g' = replace_node graph_example 3
          \<lparr>operation = opset3_TopK \<lparr>axis = axis a, mode = mode a,
               sort_type = sort_type a, index_element_type = index_element_type a\<rparr>,
             inputs = [inputs n ! 0, inputs n ! 1], friendly_name = friendly_name n,
             rt_info = rt_info n\<rparr>"
  using replacement_built_from [OF example_topk_b_fires] example_topk_b_fires by blast

subsection \<open>Running the pass twice\<close>




















end
